theory Spec2Isabelle
  imports Complex_Main "HOL-Library.Sublist"
begin

section \<open>Data model\<close>

text \<open>
  The player of \<^verbatim>\<open>code.py\<close>: a \<^verbatim>\<open>SongPlayer\<close> task that plays a WAV file
  through the audio driver and, from the same time origin, sends the events of a MIDI
  file to the MIDI output. Exceptions are values of type \<open>error\<close>; a call that can
  raise returns the state it leaves behind together with \<open>Inl\<close> of the error or
  \<open>Inr\<close> of its result, because a Python exception does not undo the assignments
  made before it.
\<close>

datatype error = OSError | ValueError | IndexError | ZeroDivisionError

text \<open>
  \<^verbatim>\<open>class Song\<close>. The fields \<^verbatim>\<open>audio_file\<close> and \<^verbatim>\<open>midi_file\<close> of a song are
  named \<open>audio_path\<close> and \<open>midi_path\<close> here, since the player has a field
  \<^verbatim>\<open>audio_file\<close> of its own.
\<close>

record Song =
  keynum :: int
  midi_note :: "int option"
  audio_path :: "string option"
  midi_path :: "string option"
  title :: string

definition is_key :: "Song \<Rightarrow> int \<Rightarrow> bool" where
  "is_key s k = (keynum s = k)"

definition has_audio :: "Song \<Rightarrow> bool" where
  "has_audio s = (audio_path s \<noteq> None)"

definition has_midi :: "Song \<Rightarrow> bool" where
  "has_midi s = (midi_path s \<noteq> None)"

text \<open>The argument of \<^verbatim>\<open>play\<close>: a \<^verbatim>\<open>Song\<close> instance, or any other Python value.\<close>

datatype arg = SongRef Song | NotSong

text \<open>
  An event of the MIDI parser: \<^verbatim>\<open>delta_us\<close> is decoded from an unsigned
  variable-length quantity, hence a natural number; the attributes \<^verbatim>\<open>note\<close>,
  \<^verbatim>\<open>velocity\<close>, \<^verbatim>\<open>channel\<close>, \<^verbatim>\<open>control\<close>, \<^verbatim>\<open>value\<close> and \<^verbatim>\<open>program\<close> carry the
  prefix \<open>ev_\<close>.
\<close>

record event =
  delta_us :: nat
  status :: nat
  ev_note :: int
  ev_velocity :: int
  ev_channel :: int
  ev_control :: int
  ev_value :: int
  ev_program :: int

text \<open>The status constants of the parser are the MIDI status bytes.\<close>

definition NOTE_OFF :: nat where "NOTE_OFF = 128"
definition NOTE_ON :: nat where "NOTE_ON = 144"
definition CONTROL_CHANGE :: nat where "CONTROL_CHANGE = 176"
definition PROGRAM_CHANGE :: nat where "PROGRAM_CHANGE = 192"

text \<open>What a WAV header declares, and what a path of the SD card holds.\<close>

record wave =
  sample_rate :: nat
  channel_count :: nat
  bits_per_sample :: nat

datatype asset = Wav wave | Mid "event list" | Junk

text \<open>An open file object and the generator returned by \<^verbatim>\<open>MidiFile(...).play(sleep=False)\<close>;
  \<open>fd\<close> and \<open>cid\<close> are the identities of the two objects.\<close>

record file_obj =
  fd :: nat
  data :: asset

record cursor =
  cid :: nat
  pending :: "event list"

text \<open>The audio driver, the display, and the calls that leave the engine towards the
  MIDI output and the scheduler.\<close>

record audio_dev =
  dev_sample_rate :: nat
  dev_channel_count :: nat
  dev_bits_per_sample :: nat
  dev_level :: real
  reset_level :: real
  streaming :: "wave option"

record display_dev =
  graph :: real
  indicator :: char
  line :: string

datatype midi_msg =
    NoteOnMsg int int int
  | NoteOffMsg int int
  | ControlChangeMsg int int int
  | ProgramChangeMsg int int

datatype io = Sleep int | Send midi_msg

text \<open>
  The whole state: the fields of \<^verbatim>\<open>SongPlayer\<close>, the globals \<^verbatim>\<open>selected\<close>,
  \<^verbatim>\<open>level\<close> and \<^verbatim>\<open>songs\<close>, and the collaborators. \<open>clock_ns\<close> is what
  \<^verbatim>\<open>time.monotonic_ns()\<close> returns; \<open>journal\<close> lists, in order, the suspensions
  requested from the scheduler (in microseconds) and the messages handed to the MIDI output.
\<close>

record world =
  song :: "Song option"
  audio_file :: "file_obj option"
  audio_wav :: "wave option"
  audio_playing :: bool
  midi_track :: "cursor option"
  midi_playing :: bool
  start_time :: int
  selected :: int
  level :: real
  songs :: "Song list"
  audio :: audio_dev
  display :: display_dev
  fs :: "string \<Rightarrow> asset option"
  next_id :: nat
  open_fds :: "nat set"
  clock_ns :: int
  journal :: "io list"

section \<open>Collaborators\<close>

definition audio_configure :: "nat \<Rightarrow> nat \<Rightarrow> nat \<Rightarrow> audio_dev \<Rightarrow> audio_dev" where
  \<comment> \<open>the source notes that the audio level is reset when the driver is reconfigured\<close>
  "audio_configure sr cc bps a =
     a\<lparr>dev_sample_rate := sr, dev_channel_count := cc, dev_bits_per_sample := bps,
       dev_level := reset_level a\<rparr>"

definition audio_set_level :: "real \<Rightarrow> audio_dev \<Rightarrow> audio_dev" where
  "audio_set_level l a = a\<lparr>dev_level := l\<rparr>"

definition audio_play :: "wave \<Rightarrow> audio_dev \<Rightarrow> audio_dev" where
  "audio_play wv a = a\<lparr>streaming := Some wv\<rparr>"

definition audio_stop :: "audio_dev \<Rightarrow> audio_dev" where
  "audio_stop a = a\<lparr>streaming := None\<rparr>"

definition audio_is_playing :: "audio_dev \<Rightarrow> bool" where
  "audio_is_playing a = (streaming a \<noteq> None)"

text \<open>\<^verbatim>\<open>open(path, "rb")\<close> raises when the path does not exist; the new file object
  is registered as open.\<close>

definition open_rb :: "world \<Rightarrow> string \<Rightarrow> world \<times> (error + file_obj)" where
  "open_rb w path =
     (case fs w path of
        None \<Rightarrow> (w, Inl OSError)
      | Some a \<Rightarrow>
          (w\<lparr>next_id := Suc (next_id w), open_fds := insert (next_id w) (open_fds w)\<rparr>,
           Inr \<lparr>fd = next_id w, data = a\<rparr>))"

definition close_file :: "file_obj \<Rightarrow> world \<Rightarrow> world" where
  "close_file f w = w\<lparr>open_fds := open_fds w - {fd f}\<rparr>"

text \<open>\<^verbatim>\<open>audiocore.WaveFile(file)\<close> raises on anything that is not a WAV file.\<close>

definition WaveFile :: "file_obj \<Rightarrow> error + wave" where
  "WaveFile f = (case data f of Wav wv \<Rightarrow> Inr wv | _ \<Rightarrow> Inl ValueError)"

text \<open>\<^verbatim>\<open>umidiparser.MidiFile(path).play(sleep=False)\<close>: a fresh generator over the
  events of the file, or an exception.\<close>

definition MidiFile_play :: "world \<Rightarrow> string \<Rightarrow> world \<times> (error + cursor)" where
  "MidiFile_play w path =
     (case fs w path of
        None \<Rightarrow> (w, Inl OSError)
      | Some (Mid evs) \<Rightarrow>
          (w\<lparr>next_id := Suc (next_id w)\<rparr>, Inr \<lparr>cid = next_id w, pending = evs\<rparr>)
      | Some _ \<Rightarrow> (w, Inl ValueError))"

definition send :: "midi_msg \<Rightarrow> world \<Rightarrow> world" where
  "send m w = w\<lparr>journal := journal w @ [Send m]\<rparr>"

definition monotonic_us :: "world \<Rightarrow> int" where
  \<comment> \<open>\<^verbatim>\<open>time.monotonic_ns() // 1000\<close>\<close>
  "monotonic_us w = clock_ns w div 1000"

section \<open>The player\<close>

definition is_playing :: "world \<Rightarrow> bool" where
  "is_playing w = (song w \<noteq> None)"

definition stop :: "world \<Rightarrow> world" where
  "stop w =
     (let w1 = w\<lparr>audio := audio_stop (audio w)\<rparr>;
          w2 = (case audio_file w1 of
                  None \<Rightarrow> w1
                | Some f \<Rightarrow> (close_file f w1)\<lparr>audio_file := None\<rparr>);
          w3 = w2\<lparr>midi_playing := False\<rparr>
      in if song w3 \<noteq> None then w3\<lparr>song := None\<rparr> else w3)"

text \<open>The two conditional blocks of \<^verbatim>\<open>play\<close>, each up to its first exception.\<close>

definition play_midi :: "world \<Rightarrow> Song \<Rightarrow> world \<times> (error + unit)" where
  "play_midi w s =
     (case midi_path s of
        None \<Rightarrow> (w, Inr ())
      | Some p \<Rightarrow>
          (case MidiFile_play w p of
             (w1, Inl e) \<Rightarrow> (w1, Inl e)
           | (w1, Inr c) \<Rightarrow> (w1\<lparr>midi_track := Some c\<rparr>, Inr ())))"

definition play_audio :: "world \<Rightarrow> Song \<Rightarrow> world \<times> (error + unit)" where
  "play_audio w s =
     (case audio_path s of
        None \<Rightarrow> (w, Inr ())
      | Some p \<Rightarrow>
          (case open_rb w p of
             (w1, Inl e) \<Rightarrow> (w1, Inl e)
           | (w1, Inr f) \<Rightarrow>
               (let w2 = w1\<lparr>audio_file := Some f\<rparr> in
                case WaveFile f of
                  Inl e \<Rightarrow> (w2, Inl e)
                | Inr wv \<Rightarrow>
                    (let w3 = w2\<lparr>audio_wav := Some wv\<rparr>;
                         w4 = w3\<lparr>audio := audio_configure (sample_rate wv) (channel_count wv)
                                               (bits_per_sample wv) (audio w3)\<rparr>;
                         w5 = w4\<lparr>audio := audio_set_level (level w4) (audio w4)\<rparr>;
                         w6 = w5\<lparr>audio := audio_play wv (audio w5)\<rparr>
                     in (w6\<lparr>audio_playing := True\<rparr>, Inr ())))))"

definition play :: "world \<Rightarrow> arg \<Rightarrow> world \<times> (error + bool)" where
  "play w a =
     (let w1 = stop w in
      case a of
        NotSong \<Rightarrow> (w1, Inr False)
      | SongRef s \<Rightarrow>
          (let w2 = w1\<lparr>song := Some s\<rparr> in
           case play_midi w2 s of
             (w3, Inl e) \<Rightarrow> (w3, Inl e)
           | (w3, Inr _) \<Rightarrow>
               (case play_audio w3 s of
                  (w4, Inl e) \<Rightarrow> (w4, Inl e)
                | (w4, Inr _) \<Rightarrow> (w4\<lparr>start_time := monotonic_us w4\<rparr>, Inr True))))"

text \<open>The body of the \<^verbatim>\<open>if\<close>/\<^verbatim>\<open>elif\<close> chain of the dispatch loop; an event of any
  other status falls through.\<close>

definition dispatch :: "event \<Rightarrow> world \<Rightarrow> world" where
  "dispatch ev w =
     (if status ev = NOTE_ON then send (NoteOnMsg (ev_note ev) (ev_velocity ev) (ev_channel ev)) w
      else if status ev = NOTE_OFF then send (NoteOffMsg (ev_note ev) (ev_channel ev)) w
      else if status ev = CONTROL_CHANGE
        then send (ControlChangeMsg (ev_control ev) (ev_value ev) (ev_channel ev)) w
      else if status ev = PROGRAM_CHANGE
        then send (ProgramChangeMsg (ev_program ev) (ev_channel ev)) w
      else w)"

section \<open>The display and the encoder callbacks\<close>

definition song_at :: "Song list \<Rightarrow> int \<Rightarrow> error + Song" where
  \<comment> \<open>\<^verbatim>\<open>songs[selected]\<close>, with Python's negative indices and its IndexError\<close>
  "song_at xs i =
     (if 0 \<le> i \<and> i < int (length xs) then Inr (xs ! nat i)
      else if i < 0 \<and> 0 \<le> i + int (length xs) then Inr (xs ! nat (i + int (length xs)))
      else Inl IndexError)"

definition py_mod :: "int \<Rightarrow> int \<Rightarrow> error + int" where
  "py_mod a b = (if b = 0 then Inl ZeroDivisionError else Inr (a mod b))"

definition update_display :: "world \<Rightarrow> world \<times> (error + unit)" where
  "update_display w =
     (let w1 = w\<lparr>display := (display w)\<lparr>graph := level w\<rparr>\<rparr>;
          w2 = w1\<lparr>display := (display w1)\<lparr>indicator :=
                  (if is_playing w1 then CHR 0x22 else CHR ''>'')\<rparr>\<rparr>
      in case song_at (songs w2) (selected w2) of
           Inl e \<Rightarrow> (w2, Inl e)
         | Inr s \<Rightarrow> (w2\<lparr>display := (display w2)\<lparr>line := title s\<rparr>\<rparr>, Inr ()))"

definition increment_song :: "world \<Rightarrow> world \<times> (error + unit)" where
  "increment_song w =
     (if \<not> is_playing w then
        (case py_mod (selected w + 1) (int (length (songs w))) of
           Inl e \<Rightarrow> (w, Inl e)
         | Inr i \<Rightarrow> update_display (w\<lparr>selected := i\<rparr>))
      else (w, Inr ()))"

definition decrement_song :: "world \<Rightarrow> world \<times> (error + unit)" where
  "decrement_song w =
     (if \<not> is_playing w then
        (case py_mod (selected w - 1) (int (length (songs w))) of
           Inl e \<Rightarrow> (w, Inl e)
         | Inr i \<Rightarrow> update_display (w\<lparr>selected := i\<rparr>))
      else (w, Inr ()))"

definition toggle_song :: "world \<Rightarrow> int option \<Rightarrow> world \<times> (error + unit)" where
  "toggle_song w index =
     (case (case index of
              None \<Rightarrow> Inr w
            | Some i \<Rightarrow>
                (case py_mod i (int (length (songs w))) of
                   Inl e \<Rightarrow> Inl e
                 | Inr j \<Rightarrow> Inr (w\<lparr>selected := j\<rparr>))) of
        Inl e \<Rightarrow> (w, Inl e)
      | Inr w1 \<Rightarrow>
          if is_playing w1 then update_display (stop w1)
          else
            (case song_at (songs w1) (selected w1) of
               Inl e \<Rightarrow> (w1, Inl e)
             | Inr s \<Rightarrow>
                 (case play w1 (SongRef s) of
                    (w2, Inl e) \<Rightarrow> (w2, Inl e)
                  | (w2, Inr _) \<Rightarrow> update_display w2)))"

section \<open>Suspension and the update step\<close>

text \<open>
  The scheduler is cooperative: other code runs only while \<^verbatim>\<open>update\<close> is suspended in
  \<^verbatim>\<open>asyncio.sleep\<close>. What happens then is not decided by the player, so it is an input:
  a \<open>pulse\<close> for every event pulled from the cursor, giving the nanoseconds that pass
  before the clock is read (\<open>tick\<close>), the nanoseconds that pass during the suspension if
  one is taken (\<open>slept\<close>), and what other tasks do meanwhile (\<open>acts\<close>): calls of the
  player's interface, the encoder callbacks, or the audio driver reaching the end of its
  waveform. An exception raised in one of those calls stays in the task that made it,
  and \<^verbatim>\<open>update\<close> is not entered a second time while it is suspended.
\<close>

datatype act =
    CallStop
  | CallPlay arg
  | IncrementSong
  | DecrementSong
  | ToggleSong "int option"
  | WaveEnds

record pulse =
  tick :: nat
  slept :: nat
  acts :: "act list"

fun run_act :: "world \<Rightarrow> act \<Rightarrow> world" where
  "run_act w CallStop = stop w"
| "run_act w (CallPlay a) = fst (play w a)"
| "run_act w IncrementSong = fst (increment_song w)"
| "run_act w DecrementSong = fst (decrement_song w)"
| "run_act w (ToggleSong index) = fst (toggle_song w index)"
| "run_act w WaveEnds = w\<lparr>audio := (audio w)\<lparr>streaming := None\<rparr>\<rparr>"

definition next_pulse :: "pulse list \<Rightarrow> pulse" where
  "next_pulse ps = (case ps of [] \<Rightarrow> \<lparr>tick = 0, slept = 0, acts = []\<rparr> | p # _ \<Rightarrow> p)"

definition advance :: "nat \<Rightarrow> world \<Rightarrow> world" where
  "advance n w = w\<lparr>clock_ns := clock_ns w + int n\<rparr>"

definition sleep_us :: "pulse \<Rightarrow> int \<Rightarrow> world \<Rightarrow> world" where
  \<comment> \<open>\<^verbatim>\<open>await asyncio.sleep(delay / 1000000)\<close>: the request is journalled in
      microseconds; how long the suspension lasts and what happens meanwhile is the pulse's\<close>
  "sleep_us p delay w =
     foldl run_act (advance (slept p) (w\<lparr>journal := journal w @ [Sleep delay]\<rparr>)) (acts p)"

text \<open>
  The first half of the loop body: read the clock, compute \<^verbatim>\<open>delay\<close> and sleep when
  it is positive. \<open>midi_time\<close> is the accumulator after the event's \<^verbatim>\<open>delta_us\<close>
  has been added.
\<close>

definition await_due :: "pulse \<Rightarrow> int \<Rightarrow> world \<Rightarrow> world" where
  "await_due p midi_time w =
     (let w1 = advance (tick p) w;
          current_time = monotonic_us w1 - start_time w1;
          delay = midi_time - current_time
      in if delay > 0 then sleep_us p delay w1 else w1)"

text \<open>
  The \<^verbatim>\<open>for event in self.midi_track\<close> loop. It returns the pulses left, the state, the
  accumulator \<^verbatim>\<open>midi_time\<close> and the events still in the generator (none unless the loop
  was left through \<^verbatim>\<open>break\<close>).
\<close>

fun midi_dispatch ::
  "pulse list \<Rightarrow> world \<Rightarrow> int \<Rightarrow> event list \<Rightarrow> pulse list \<times> world \<times> int \<times> event list" where
  "midi_dispatch ps w midi_time [] = (ps, w, midi_time, [])"
| "midi_dispatch ps w midi_time (ev # rest) =
     (let midi_time' = midi_time + int (delta_us ev);
          w2 = await_due (next_pulse ps) midi_time' w
      in if \<not> midi_playing w2 then (drop 1 ps, w2, midi_time', rest)
         else midi_dispatch (drop 1 ps) (dispatch ev w2) midi_time' rest)"

text \<open>The generator object \<open>c\<close> has been read up to \<open>rest\<close>; the player sees that
  through \<^verbatim>\<open>self.midi_track\<close> if the field still refers to the same object.\<close>

definition consumed :: "cursor \<Rightarrow> event list \<Rightarrow> world \<Rightarrow> world" where
  "consumed c rest w =
     (case midi_track w of
        None \<Rightarrow> w
      | Some c' \<Rightarrow> if cid c' = cid c then w\<lparr>midi_track := Some (c\<lparr>pending := rest\<rparr>)\<rparr> else w)"

definition update_midi :: "pulse list \<Rightarrow> world \<Rightarrow> pulse list \<times> world" where
  "update_midi ps w =
     (case (song w, midi_track w) of
        (Some s, Some c) \<Rightarrow>
          if has_midi s then
            (case midi_dispatch ps (w\<lparr>midi_playing := True\<rparr>) 0 (pending c) of
               (ps', w', midi_time, rest) \<Rightarrow> (ps', (consumed c rest w')\<lparr>midi_playing := False\<rparr>))
          else (ps, w)
      | _ \<Rightarrow> (ps, w))"

definition update_audio :: "world \<Rightarrow> world" where
  "update_audio w =
     (let w1 = (if audio_playing w \<and> \<not> audio_is_playing (audio w)
                then w\<lparr>audio_playing := False\<rparr> else w)
      in if \<not> midi_playing w1 \<and> \<not> audio_playing w1 then stop w1 else w1)"

definition update :: "pulse list \<Rightarrow> world \<Rightarrow> pulse list \<times> world" where
  "update ps w =
     (if \<not> is_playing w then (ps, w)
      else (case update_midi ps w of (ps', w') \<Rightarrow> (ps', update_audio w')))"

section \<open>Start-up state and the invariant of the player\<close>

definition boot ::
  "(string \<Rightarrow> asset option) \<Rightarrow> Song list \<Rightarrow> audio_dev \<Rightarrow> display_dev \<Rightarrow> world" where
  "boot fsys catalog dev disp =
     fst (update_display
       \<lparr>song = None, audio_file = None, audio_wav = None, audio_playing = False,
        midi_track = None, midi_playing = False, start_time = 0,
        selected = 0, level = dev_level dev, songs = catalog,
        audio = dev\<lparr>streaming := None\<rparr>, display = disp, fs = fsys,
        next_id = 0, open_fds = {}, clock_ns = 0, journal = []\<rparr>)"

definition consistent :: "world \<Rightarrow> bool" where
  "consistent w =
     ((song w = None \<longrightarrow>
         \<not> midi_playing w \<and> audio_file w = None \<and> streaming (audio w) = None) \<and>
      (case audio_file w of
         None \<Rightarrow> open_fds w = {}
       | Some f \<Rightarrow> open_fds w = {fd f} \<and> fd f < next_id w))"

text \<open>The event-to-command mapping in the words of the specification, and the MIDI
  messages of a journal.\<close>

definition command :: "event \<Rightarrow> midi_msg list" where
  "command ev =
     (if status ev = NOTE_ON then [NoteOnMsg (ev_note ev) (ev_velocity ev) (ev_channel ev)]
      else if status ev = NOTE_OFF then [NoteOffMsg (ev_note ev) (ev_channel ev)]
      else if status ev = CONTROL_CHANGE
        then [ControlChangeMsg (ev_control ev) (ev_value ev) (ev_channel ev)]
      else if status ev = PROGRAM_CHANGE then [ProgramChangeMsg (ev_program ev) (ev_channel ev)]
      else [])"

text \<open>\<open>all_due ps now start midi_time evs\<close>: with the clock at \<open>now\<close> nanoseconds
  and the accumulator at \<open>midi_time\<close>, each event of \<open>evs\<close> has a non-positive
  \<^verbatim>\<open>delay\<close> at the moment it is pulled, the clock moving by the ticks of \<open>ps\<close>.\<close>

fun all_due :: "pulse list \<Rightarrow> int \<Rightarrow> int \<Rightarrow> int \<Rightarrow> event list \<Rightarrow> bool" where
  "all_due ps now start midi_time [] = True"
| "all_due ps now start midi_time (ev # evs) =
     (midi_time + int (delta_us ev) - ((now + int (tick (next_pulse ps))) div 1000 - start) \<le> 0 \<and>
      all_due (drop 1 ps) (now + int (tick (next_pulse ps))) start
        (midi_time + int (delta_us ev)) evs)"

fun sent :: "io list \<Rightarrow> midi_msg list" where
  "sent [] = []"
| "sent (Sleep d # xs) = sent xs"
| "sent (Send m # xs) = m # sent xs"

text \<open>The states the program can be in when a task runs: the start-up state, what calls
  from other tasks, the passing of time and a whole \<^verbatim>\<open>update\<close> make of such a state,
  and the states inside the dispatch loop of \<^verbatim>\<open>update\<close>, in which other tasks run
  during a suspension.\<close>

inductive reachable :: "world \<Rightarrow> bool" where
  start: "reachable (boot fsys catalog dev disp)"
| other_task: "reachable w \<Longrightarrow> reachable (run_act w a)"
| time_passes: "reachable w \<Longrightarrow> reachable (advance n w)"
| updated: "reachable w \<Longrightarrow> reachable (snd (update ps w))"
| loop_entered: "reachable w \<Longrightarrow> is_playing w \<Longrightarrow> reachable (w\<lparr>midi_playing := True\<rparr>)"
| awaited: "reachable w \<Longrightarrow> reachable (await_due p midi_time w)"
| dispatched: "reachable w \<Longrightarrow> reachable (dispatch ev w)"







section \<open>A concrete installation\<close>

text \<open>An SD card with two WAV files, a MIDI file of four notes whose cumulative
  delta-times are 1000, 2000, 4000 and 6000 microseconds, a MIDI file that starts with a
  meta event, and two files, named \<^verbatim>\<open>.wav\<close> and \<^verbatim>\<open>.mid\<close>, that are neither a WAV
  nor a MIDI file.\<close>

definition mk_event :: "nat \<Rightarrow> nat \<Rightarrow> int \<Rightarrow> event" where
  "mk_event d st n =
     \<lparr>delta_us = d, status = st, ev_note = n, ev_velocity = 100, ev_channel = 0,
      ev_control = 0, ev_value = 0, ev_program = 0\<rparr>"

definition demo_events :: "event list" where
  "demo_events =
     [mk_event 1000 NOTE_ON 60, mk_event 1000 NOTE_OFF 60,
      mk_event 2000 NOTE_ON 64, mk_event 2000 NOTE_OFF 64]"

definition meta_events :: "event list" where
  "meta_events = [mk_event 1000 255 0, mk_event 500 NOTE_ON 60]"

definition wave_a :: wave where
  "wave_a = \<lparr>sample_rate = 22050, channel_count = 1, bits_per_sample = 16\<rparr>"

definition wave_b :: wave where
  "wave_b = \<lparr>sample_rate = 44100, channel_count = 2, bits_per_sample = 16\<rparr>"

definition demo_fs :: "string \<Rightarrow> asset option" where
  "demo_fs path =
     (if path = ''/sd/a.wav'' then Some (Wav wave_a)
      else if path = ''/sd/b.wav'' then Some (Wav wave_b)
      else if path = ''/sd/m.mid'' then Some (Mid demo_events)
      else if path = ''/sd/meta.mid'' then Some (Mid meta_events)
      else if path = ''/sd/bad.wav'' then Some Junk
      else if path = ''/sd/bad.mid'' then Some Junk
      else None)"

definition song_a :: Song where
  "song_a = \<lparr>keynum = 1, midi_note = None, audio_path = Some ''/sd/a.wav'',
             midi_path = None, title = ''a''\<rparr>"

definition song_m :: Song where
  "song_m = \<lparr>keynum = 2, midi_note = None, audio_path = None,
             midi_path = Some ''/sd/m.mid'', title = ''m''\<rparr>"

definition song_b :: Song where
  "song_b = \<lparr>keynum = 3, midi_note = None, audio_path = Some ''/sd/b.wav'',
             midi_path = Some ''/sd/m.mid'', title = ''b''\<rparr>"

definition song_bad :: Song where
  "song_bad = \<lparr>keynum = 4, midi_note = None, audio_path = Some ''/sd/bad.wav'',
               midi_path = Some ''/sd/m.mid'', title = ''bad''\<rparr>"

definition demo_dev :: audio_dev where
  "demo_dev = \<lparr>dev_sample_rate = 0, dev_channel_count = 0, dev_bits_per_sample = 0,
               dev_level = 1, reset_level = 1, streaming = None\<rparr>"

definition demo_disp :: display_dev where
  "demo_disp = \<lparr>graph = 0, indicator = CHR '' '', line = []\<rparr>"

definition demo_boot :: world where
  "demo_boot = boot demo_fs [song_a, song_m, song_b, song_bad] demo_dev demo_disp"

text \<open>\<open>song_a\<close> playing; the same after its waveform has ended; the same after the
  user has stopped it instead; \<open>song_m\<close> just started, and 5000 microseconds later.\<close>

definition demo_playing_a :: world where
  "demo_playing_a = run_act demo_boot (CallPlay (SongRef song_a))"

definition demo_finished_a :: world where
  "demo_finished_a = run_act demo_playing_a WaveEnds"

definition demo_stopped_a :: world where
  "demo_stopped_a = run_act demo_playing_a CallStop"

definition demo_playing_m :: world where
  "demo_playing_m = run_act demo_boot (CallPlay (SongRef song_m))"

definition demo_late_m :: world where
  "demo_late_m = advance 5000000 demo_playing_m"

text \<open>A second catalogue, of MIDI songs: the four notes, a song whose MIDI file does not
  parse, and the song that starts with a meta event. The user starts the first song and
  stops it during the wait for its second event; then selects the next song and starts
  it, which fails; then \<^verbatim>\<open>update\<close> runs again.\<close>

definition song_junk :: Song where
  "song_junk = \<lparr>keynum = 5, midi_note = None, audio_path = None,
                midi_path = Some ''/sd/bad.mid'', title = ''junk''\<rparr>"

definition song_meta :: Song where
  "song_meta = \<lparr>keynum = 6, midi_note = None, audio_path = None,
                midi_path = Some ''/sd/meta.mid'', title = ''meta''\<rparr>"

definition midi_boot :: world where
  "midi_boot = boot demo_fs [song_m, song_junk, song_meta] demo_dev demo_disp"

definition exact_pulse :: "nat \<Rightarrow> pulse" where
  "exact_pulse us = \<lparr>tick = 0, slept = 1000 * us, acts = []\<rparr>"

definition stop_pulse :: pulse where
  "stop_pulse = \<lparr>tick = 0, slept = 400000, acts = [CallStop]\<rparr>"





definition stage_playing_meta :: world where
  "stage_playing_meta = run_act midi_boot (CallPlay (SongRef song_meta))"

section \<open>Basic facts\<close>

text \<open>What \<^verbatim>\<open>stop\<close>, \<^verbatim>\<open>play\<close>, the display and the calls of other tasks leave
  unchanged.\<close>

lemmas play_defs = play_def play_midi_def play_audio_def MidiFile_play_def open_rb_def
  WaveFile_def audio_configure_def audio_set_level_def audio_play_def monotonic_us_def

lemmas loop_defs = await_due_def next_pulse_def advance_def monotonic_us_def sleep_us_def
  dispatch_def send_def command_def mk_event_def
  NOTE_ON_def NOTE_OFF_def CONTROL_CHANGE_def PROGRAM_CHANGE_def

lemma stop_stop: "stop (stop w) = stop w"
  by (simp add: stop_def Let_def close_file_def audio_stop_def split: option.splits)

lemma stop_facts:
  "song (stop w) = None" "audio_file (stop w) = None" "\<not> midi_playing (stop w)"
  "streaming (audio (stop w)) = None" "audio_playing (stop w) = audio_playing w"
  "journal (stop w) = journal w" "next_id (stop w) = next_id w" "fs (stop w) = fs w"
  "midi_track (stop w) = midi_track w" "start_time (stop w) = start_time w"
  "selected (stop w) = selected w" "songs (stop w) = songs w" "clock_ns (stop w) = clock_ns w"
  "level (stop w) = level w" "audio (stop w) = (audio w)\<lparr>streaming := None\<rparr>"
  by (simp_all add: stop_def Let_def close_file_def audio_stop_def split: option.splits)

lemma play_after_stop: "play w a = play (stop w) a"
  by (simp add: play_def stop_stop)

lemma dispatch_journal: "dispatch ev w = w\<lparr>journal := journal w @ map Send (command ev)\<rparr>"
  by (simp add: dispatch_def command_def send_def)

lemma dispatch_keeps:
  "midi_playing (dispatch ev w) = midi_playing w"
  "clock_ns (dispatch ev w) = clock_ns w"
  "start_time (dispatch ev w) = start_time w"
  by (simp_all add: dispatch_journal)


lemma sent_Send: "sent (map Send ms) = ms"
  by (induction ms) simp_all

lemma play_flag: "\<not> midi_playing (fst (play w a))"
  by (cases a) (simp_all add: play_def Let_def play_midi_def play_audio_def MidiFile_play_def
      open_rb_def WaveFile_def stop_facts
      split: option.splits sum.splits asset.splits prod.splits)

lemma play_journal: "journal (fst (play w a)) = journal w"
  by (cases a) (simp_all add: play_def Let_def play_midi_def play_audio_def MidiFile_play_def
      open_rb_def WaveFile_def stop_facts
      split: option.splits sum.splits asset.splits prod.splits)

lemma update_display_keeps:
  "midi_playing (fst (update_display w)) = midi_playing w"
  "journal (fst (update_display w)) = journal w"
  "selected (fst (update_display w)) = selected w"
  "song (fst (update_display w)) = song w"
  by (simp_all add: update_display_def Let_def split: sum.splits)


lemma play_journalD: "play w a = (w', r) \<Longrightarrow> journal w' = journal w"
  using play_journal [of w a] by simp


lemma toggle_journal: "journal (fst (toggle_song w index)) = journal w"
  by (auto simp add: toggle_song_def update_display_keeps stop_facts
      split: option.splits sum.splits prod.splits dest: play_journalD)


lemma run_act_journal: "journal (run_act w a) = journal w"
  by (cases a) (simp_all add: play_journal stop_facts increment_song_def decrement_song_def
      toggle_journal update_display_keeps split: option.splits sum.splits prod.splits)


lemma run_acts_journal: "journal (foldl run_act w as) = journal w"
  by (induction as arbitrary: w) (simp_all add: run_act_journal)


section \<open>The invariant holds in every reachable state\<close>

lemma stop_idle: "consistent w \<Longrightarrow> song w = None \<Longrightarrow> stop w = w"
  by (simp add: consistent_def stop_def audio_stop_def)

lemma stop_open_fds: "consistent w \<Longrightarrow> open_fds (stop w) = {}"
  by (auto simp add: stop_def Let_def close_file_def audio_stop_def consistent_def split: option.splits)

lemma consistent_stop: "consistent w \<Longrightarrow> consistent (stop w)"
  by (simp add: consistent_def stop_facts stop_open_fds)

lemma consistent_play: "consistent w \<Longrightarrow> consistent (fst (play w a))"
  by (cases a)
    (auto simp add: play_def Let_def play_midi_def play_audio_def MidiFile_play_def open_rb_def
      WaveFile_def consistent_def stop_facts stop_open_fds audio_configure_def audio_set_level_def
      audio_play_def monotonic_us_def
      split: option.splits sum.splits asset.splits prod.splits)

lemma consistent_cong:
  "song w' = song w \<Longrightarrow> midi_playing w' = midi_playing w \<Longrightarrow> audio_file w' = audio_file w \<Longrightarrow>
   streaming (audio w') = streaming (audio w) \<Longrightarrow> open_fds w' = open_fds w \<Longrightarrow>
   next_id w' = next_id w \<Longrightarrow> consistent w' = consistent w"
  by (simp add: consistent_def split: option.splits)

lemma consistent_display: "consistent w \<Longrightarrow> consistent (fst (update_display w))"
proof -
  have "consistent (fst (update_display w)) = consistent w"
    by (rule consistent_cong) (simp_all add: update_display_def Let_def split: sum.splits)
  then show "consistent w \<Longrightarrow> consistent (fst (update_display w))" by simp
qed

lemma consistent_selected: "consistent w \<Longrightarrow> consistent (w\<lparr>selected := i\<rparr>)"
  using consistent_cong [of "w\<lparr>selected := i\<rparr>" w] by simp

lemma toggle_song_preserves:
  assumes s: "\<And>w. P w \<Longrightarrow> P (stop w)"
    and p: "\<And>w a. P w \<Longrightarrow> P (fst (play w a))"
    and d: "\<And>w. P w \<Longrightarrow> P (fst (update_display w))"
    and i: "\<And>w i. P w \<Longrightarrow> P (w\<lparr>selected := i\<rparr>)"
  shows "P w \<Longrightarrow> P (fst (toggle_song w index))"
proof -
  have core: "P (fst (if is_playing v then update_display (stop v)
          else (case song_at (songs v) (selected v) of
               Inl e \<Rightarrow> (v, Inl e)
             | Inr s \<Rightarrow>
                 (case play v (SongRef s) of
                    (w2, Inl e) \<Rightarrow> (w2, Inl e)
                  | (w2, Inr _) \<Rightarrow> update_display w2))))" if v: "P v" for v
  proof (cases "is_playing v")
    case True
    then show ?thesis using v by (simp add: s d)
  next
    case False
    show ?thesis
    proof (cases "song_at (songs v) (selected v)")
      case (Inl e)
      then show ?thesis using False v by simp
    next
      case (Inr sg)
      obtain w2 r where pl: "play v (SongRef sg) = (w2, r)" by (cases "play v (SongRef sg)")
      with p [OF v, of "SongRef sg"] have "P w2" by simp
      then show ?thesis using False Inr pl by (cases r) (simp_all add: d)
    qed
  qed
  assume w: "P w"
  show ?thesis
  proof (cases index)
    case None
    then show ?thesis using core [OF w] by (simp add: toggle_song_def)
  next
    case (Some k)
    show ?thesis
    proof (cases "py_mod k (int (length (songs w)))")
      case (Inl e)
      then show ?thesis using Some w by (simp add: toggle_song_def)
    next
      case (Inr j)
      then show ?thesis using Some core [OF i [OF w, of j]] by (simp add: toggle_song_def)
    qed
  qed
qed

lemma run_act_preserves:
  assumes s: "\<And>w. P w \<Longrightarrow> P (stop w)"
    and p: "\<And>w a. P w \<Longrightarrow> P (fst (play w a))"
    and d: "\<And>w. P w \<Longrightarrow> P (fst (update_display w))"
    and i: "\<And>w i. P w \<Longrightarrow> P (w\<lparr>selected := i\<rparr>)"
    and e: "\<And>w. P w \<Longrightarrow> P (w\<lparr>audio := (audio w)\<lparr>streaming := None\<rparr>\<rparr>)"
  shows "P w \<Longrightarrow> P (run_act w a)"
proof (cases a)
  case (ToggleSong index)
  assume "P w"
  then have "P (fst (toggle_song w index))" using s p d i by (rule toggle_song_preserves [rotated 4])
  then show ?thesis using ToggleSong by simp
qed (simp_all add: s p e d i increment_song_def decrement_song_def split: sum.splits)

lemma consistent_run_act: "consistent w \<Longrightarrow> consistent (run_act w a)"
proof (rule run_act_preserves [where P = consistent])
  show "consistent (v\<lparr>audio := (audio v)\<lparr>streaming := None\<rparr>\<rparr>)" if "consistent v" for v
    using that by (simp add: consistent_def split: option.splits)
qed (simp_all add: consistent_stop consistent_play consistent_display consistent_selected)

lemma consistent_run_acts: "consistent w \<Longrightarrow> consistent (foldl run_act w as)"
  by (induction as arbitrary: w) (simp_all add: consistent_run_act)

lemma consistent_advance: "consistent w \<Longrightarrow> consistent (advance n w)"
  using consistent_cong [of "advance n w" w] by (simp add: advance_def)

lemma consistent_journal: "consistent w \<Longrightarrow> consistent (w\<lparr>journal := j\<rparr>)"
  using consistent_cong [of "w\<lparr>journal := j\<rparr>" w] by simp

lemma consistent_await: "consistent w \<Longrightarrow> consistent (await_due p mt w)"
  by (simp add: await_due_def Let_def sleep_us_def consistent_run_acts consistent_advance
      consistent_journal)

lemma consistent_dispatch: "consistent w \<Longrightarrow> consistent (dispatch ev w)"
  by (simp add: dispatch_journal consistent_journal)

lemma consistent_loop: "consistent w \<Longrightarrow> consistent (fst (snd (midi_dispatch ps w mt es)))"
proof (induction es arbitrary: ps w mt)
  case Nil
  then show ?case by simp
next
  case (Cons ev es)
  let ?w2 = "await_due (next_pulse ps) (mt + int (delta_us ev)) w"
  have a: "consistent ?w2" using Cons.prems by (rule consistent_await)
  then have "consistent (dispatch ev ?w2)" by (rule consistent_dispatch)
  then have "consistent (fst (snd (midi_dispatch (drop 1 ps) (dispatch ev ?w2) (mt + int (delta_us ev)) es)))"
    by (rule Cons.IH)
  with a show ?case by (simp add: Let_def)
qed

lemma consistent_update_midi: "consistent w \<Longrightarrow> consistent (snd (update_midi ps w))"
proof -
  assume c: "consistent w"
  have k: "\<And>c rest v. consistent v \<Longrightarrow> consistent ((consumed c rest v)\<lparr>midi_playing := False\<rparr>)"
    by (auto simp add: consumed_def consistent_def split: option.splits)
  have "consistent (w\<lparr>midi_playing := True\<rparr>)" if "song w \<noteq> None"
    using c that by (simp add: consistent_def split: option.splits)
  then have "\<And>ps mt es. song w \<noteq> None \<Longrightarrow>
      consistent (fst (snd (midi_dispatch ps (w\<lparr>midi_playing := True\<rparr>) mt es)))"
    by (simp add: consistent_loop)
  then show ?thesis using c
    apply (simp add: update_midi_def split: option.splits prod.splits)
    apply (intro allI impI conjI)
    apply (rule k)
    apply (metis fst_conv snd_conv option.distinct(1))
    done
qed

lemma consistent_update_audio: "consistent w \<Longrightarrow> consistent (update_audio w)"
proof -
  assume c: "consistent w"
  then have "consistent (w\<lparr>audio_playing := False\<rparr>)"
    using consistent_cong [of "w\<lparr>audio_playing := False\<rparr>" w] by simp
  with c show ?thesis by (simp add: update_audio_def Let_def consistent_stop)
qed

lemma consistent_update: "consistent w \<Longrightarrow> consistent (snd (update ps w))"
  using consistent_update_midi [of w ps]
  by (cases "update_midi ps w") (simp add: update_def consistent_update_audio)

lemma consistent_boot: "consistent (boot fsys catalog dev disp)"
  unfolding boot_def by (rule consistent_display) (simp add: consistent_def)

lemma consistent_loop_entered:
  "consistent w \<Longrightarrow> is_playing w \<Longrightarrow> consistent (w\<lparr>midi_playing := True\<rparr>)"
  by (simp add: consistent_def is_playing_def split: option.splits)

lemma reachable_consistent: "reachable w \<Longrightarrow> consistent w"
  by (induction rule: reachable.induct)
    (simp_all add: consistent_boot consistent_run_act consistent_advance consistent_update
      consistent_loop_entered consistent_await consistent_dispatch)

section \<open>What \<^verbatim>\<open>play\<close> opens, and \<^verbatim>\<open>update\<close> without a MIDI asset\<close>

lemma play_fresh_handles:
  "consistent w \<Longrightarrow> n \<in> open_fds (fst (play w a)) \<Longrightarrow> next_id w \<le> n"
  by (cases a)
    (auto simp add: play_defs Let_def stop_facts stop_open_fds
      split: option.splits sum.splits asset.splits prod.splits if_splits)

lemma play_stream_source:
  "streaming (audio (fst (play w (SongRef b)))) = Some wv \<Longrightarrow>
   \<exists>p. audio_path b = Some p \<and> fs w p = Some (Wav wv)"
  by (auto simp add: play_defs Let_def stop_facts
      split: option.splits sum.splits asset.splits prod.splits if_splits)

lemma play_audio_only:
  assumes "audio_path s = Some p" and "midi_path s = None" and "fs w p = Some (Wav wv)"
  shows "snd (play w (SongRef s)) = Inr True"
    and "song (fst (play w (SongRef s))) = Some s"
    and "audio_playing (fst (play w (SongRef s)))"
    and "audio (fst (play w (SongRef s))) =
           (audio w)\<lparr>dev_sample_rate := sample_rate wv, dev_channel_count := channel_count wv,
                      dev_bits_per_sample := bits_per_sample wv, dev_level := level w,
                      streaming := Some wv\<rparr>"
  using assms
  by (simp_all add: play_defs Let_def stop_facts)

lemma update_without_midi:
  assumes "song w = Some s" and "\<not> has_midi s" and "\<not> midi_playing w" and "audio_playing w"
  shows "update ps w =
     (ps, if audio_is_playing (audio w) then w else stop (w\<lparr>audio_playing := False\<rparr>))"
  using assms
  by (simp add: update_def update_midi_def update_audio_def is_playing_def Let_def
      split: option.splits)

section \<open>The dispatch loop\<close>

lemma tick_take: "int (tick (next_pulse ps)) + int (sum_list (map tick (take n (drop 1 ps))))
   = int (sum_list (map tick (take (Suc n) ps)))"
  by (cases ps) (simp_all add: next_pulse_def)

lemma catch_up:
  "midi_playing w \<Longrightarrow>
   all_due ps (clock_ns w) (start_time w) mt due \<Longrightarrow>
   midi_dispatch ps w mt (due @ rest) =
   midi_dispatch (drop (length due) ps)
     (w\<lparr>clock_ns := clock_ns w + int (sum_list (map tick (take (length due) ps))),
        journal := journal w @ map Send (concat (map command due))\<rparr>)
     (mt + int (sum_list (map delta_us due))) rest"
proof (induction due arbitrary: ps w mt)
  case Nil
  then show ?case by simp
next
  case (Cons ev due)
  let ?w1 = "advance (tick (next_pulse ps)) w"
  let ?w2 = "dispatch ev ?w1"
  from Cons.prems(2)
  have now: "mt + int (delta_us ev) - (monotonic_us ?w1 - start_time ?w1) \<le> 0"
    and later: "all_due (drop 1 ps) (clock_ns ?w2) (start_time ?w2) (mt + int (delta_us ev)) due"
    by (simp_all add: monotonic_us_def advance_def dispatch_journal)
  have "await_due (next_pulse ps) (mt + int (delta_us ev)) w = ?w1"
    using now by (simp add: await_due_def Let_def)
  moreover have flag: "midi_playing ?w2"
    using Cons.prems(1) by (simp add: dispatch_keeps advance_def)
  ultimately have step: "midi_dispatch ps w mt ((ev # due) @ rest) =
      midi_dispatch (drop 1 ps) ?w2 (mt + int (delta_us ev)) (due @ rest)"
    by (simp add: Let_def dispatch_keeps)
  have "midi_dispatch (drop 1 ps) ?w2 (mt + int (delta_us ev)) (due @ rest)
     = midi_dispatch (drop (length due) (drop 1 ps))
     (?w2\<lparr>clock_ns := clock_ns ?w2 + int (sum_list (map tick (take (length due) (drop 1 ps)))),
        journal := journal ?w2 @ map Send (concat (map command due))\<rparr>)
     ((mt + int (delta_us ev)) + int (sum_list (map delta_us due))) rest"
    using flag later by (rule Cons.IH)
  also have "?w2\<lparr>clock_ns := clock_ns ?w2 + int (sum_list (map tick (take (length due) (drop 1 ps)))),
        journal := journal ?w2 @ map Send (concat (map command due))\<rparr>
     = w\<lparr>clock_ns := clock_ns w + int (sum_list (map tick (take (length (ev # due)) ps))),
        journal := journal w @ map Send (concat (map command (ev # due)))\<rparr>"
    using tick_take [of ps "length due"] by (simp add: dispatch_journal advance_def add.assoc)
  finally show ?case using step by (simp add: add.assoc)
qed

lemma dispatch_loop_extends: "prefix (journal w) (journal (fst (snd (midi_dispatch ps w mt es))))"
proof (induction es arbitrary: ps w mt)
  case Nil
  then show ?case by simp
next
  case (Cons ev es)
  let ?w2 = "await_due (next_pulse ps) (mt + int (delta_us ev)) w"
  have a: "prefix (journal w) (journal ?w2)"
    by (simp add: await_due_def Let_def sleep_us_def run_acts_journal advance_def)
  show ?case
  proof (cases "midi_playing ?w2")
    case False
    then show ?thesis using a by (simp add: Let_def)
  next
    case True
    have "prefix (journal ?w2) (journal (dispatch ev ?w2))"
      by (simp add: dispatch_journal)
    with a have "prefix (journal w) (journal (dispatch ev ?w2))"
      by (rule prefix_order.trans)
    also have "prefix (journal (dispatch ev ?w2))
        (journal (fst (snd (midi_dispatch (drop 1 ps) (dispatch ev ?w2) (mt + int (delta_us ev)) es))))"
      by (rule Cons.IH)
    finally show ?thesis using True by (simp add: Let_def)
  qed
qed

lemma midi_time_pulled:
  "midi_dispatch ps w mt es = (ps1, w1, mt1, left) \<Longrightarrow>
   mt1 = mt + int (sum_list (map delta_us (take (length es - length left) es))) \<and>
   length left \<le> length es"
proof (induction es arbitrary: ps w mt)
  case Nil
  then show ?case by simp
next
  case (Cons ev es)
  let ?w2 = "await_due (next_pulse ps) (mt + int (delta_us ev)) w"
  show ?case
  proof (cases "midi_playing ?w2")
    case False
    with Cons.prems show ?thesis by (simp add: Let_def)
  next
    case True
    with Cons.prems have "midi_dispatch (drop 1 ps) (dispatch ev ?w2) (mt + int (delta_us ev)) es
        = (ps1, w1, mt1, left)"
      by (simp add: Let_def)
    from Cons.IH [OF this] show ?thesis
      by (simp add: Suc_diff_le)
  qed
qed

lemma dispatch_append:
  "midi_playing w \<Longrightarrow>
   midi_dispatch ps w mt (pre @ rest) =
     (case midi_dispatch ps w mt pre of
        (ps1, w1, mt1, left) \<Rightarrow>
          if midi_playing w1 then midi_dispatch ps1 w1 mt1 rest
          else (ps1, w1, mt1, left @ rest))"
proof (induction pre arbitrary: ps w mt)
  case Nil
  then show ?case by simp
next
  case (Cons ev pre)
  let ?w2 = "await_due (next_pulse ps) (mt + int (delta_us ev)) w"
  show ?case
  proof (cases "midi_playing ?w2")
    case False
    then show ?thesis by (simp add: Let_def)
  next
    case True
    then have "midi_playing (dispatch ev ?w2)" by (simp add: dispatch_keeps)
    from Cons.IH [OF this] True show ?thesis by (simp add: Let_def)
  qed
qed

lemma no_break_all_pulled:
  "midi_playing w \<Longrightarrow> midi_dispatch ps w mt es = (ps1, w1, mt1, left) \<Longrightarrow> midi_playing w1 \<Longrightarrow>
   left = []"
proof (induction es arbitrary: ps w mt)
  case Nil
  then show ?case by simp
next
  case (Cons ev es)
  let ?w2 = "await_due (next_pulse ps) (mt + int (delta_us ev)) w"
  show ?case
  proof (cases "midi_playing ?w2")
    case False
    with Cons.prems(2) have "?w2 = w1" by (auto simp add: Let_def)
    with False Cons.prems(3) show ?thesis by blast
  next
    case True
    then have a: "midi_playing (dispatch ev ?w2)" by (simp add: dispatch_keeps)
    from True Cons.prems have "midi_dispatch (drop 1 ps) (dispatch ev ?w2) (mt + int (delta_us ev)) es
        = (ps1, w1, mt1, left)"
      by (simp add: Let_def)
    from Cons.IH [OF a this Cons.prems(3)] show ?thesis .
  qed
qed

lemma loop_reaches:
  assumes f: "midi_playing w"
    and r: "midi_dispatch ps w mt pre = (ps1, w1, mt1, left)"
    and f1: "midi_playing w1"
  shows "midi_dispatch ps w mt (pre @ tail) =
           midi_dispatch ps1 w1 (mt + int (sum_list (map delta_us pre))) tail"
    and "mt1 = mt + int (sum_list (map delta_us pre))"
proof -
  from f r f1 have "left = []" by (rule no_break_all_pulled)
  with midi_time_pulled [OF r] show m: "mt1 = mt + int (sum_list (map delta_us pre))" by simp
  from dispatch_append [OF f, of ps mt pre tail] r f1 m
  show "midi_dispatch ps w mt (pre @ tail) =
           midi_dispatch ps1 w1 (mt + int (sum_list (map delta_us pre))) tail"
    by simp
qed

lemma step_song_flag:
  "midi_playing (fst (increment_song w)) = midi_playing w"
  "midi_playing (fst (decrement_song w)) = midi_playing w"
  by (cases "is_playing w";
      simp add: increment_song_def decrement_song_def update_display_keeps split: sum.splits)+

lemma quiet_act: "a \<in> {IncrementSong, DecrementSong, WaveEnds} \<Longrightarrow>
   midi_playing (run_act w a) = midi_playing w"
  by (auto simp add: step_song_flag)

lemma quiet_acts: "set as \<subseteq> {IncrementSong, DecrementSong, WaveEnds} \<Longrightarrow>
   midi_playing (foldl run_act w as) = midi_playing w"
proof (induction as arbitrary: w)
  case Nil
  then show ?case by simp
next
  case (Cons a as)
  then have "a \<in> {IncrementSong, DecrementSong, WaveEnds}"
    and "set as \<subseteq> {IncrementSong, DecrementSong, WaveEnds}" by simp_all
  with Cons.IH [of "run_act w a"] quiet_act [of a w] show ?case by simp
qed

lemma step_due:
  assumes "midi_playing w"
    and "mt + int (delta_us ev) - (monotonic_us (advance (tick (next_pulse ps)) w) - start_time w) \<le> 0"
  shows "prefix (journal w @ map Send (command ev))
           (journal (fst (snd (midi_dispatch ps w mt (ev # rest)))))"
proof -
  let ?w1 = "advance (tick (next_pulse ps)) w"
  have "await_due (next_pulse ps) (mt + int (delta_us ev)) w = ?w1"
    using assms(2) by (simp add: await_due_def Let_def advance_def monotonic_us_def)
  then have "midi_dispatch ps w mt (ev # rest) =
      midi_dispatch (drop 1 ps) (dispatch ev ?w1) (mt + int (delta_us ev)) rest"
    using assms(1) by (simp add: Let_def advance_def)
  moreover have "journal (dispatch ev ?w1) = journal w @ map Send (command ev)"
    by (simp add: dispatch_journal advance_def)
  ultimately show ?thesis
    using dispatch_loop_extends [of "dispatch ev ?w1" "drop 1 ps" "mt + int (delta_us ev)" rest]
    by simp
qed

lemma step_waits:
  assumes wait: "wait = mt + int (delta_us ev)
                   - (monotonic_us (advance (tick (next_pulse ps)) w) - start_time w)"
    and pos: "0 < wait"
  shows "prefix (journal w @ [Sleep wait])
           (journal (fst (snd (midi_dispatch ps w mt (ev # rest)))))"
    and "midi_playing w \<Longrightarrow> set (acts (next_pulse ps)) \<subseteq> {IncrementSong, DecrementSong, WaveEnds} \<Longrightarrow>
         prefix (journal w @ [Sleep wait] @ map Send (command ev))
           (journal (fst (snd (midi_dispatch ps w mt (ev # rest)))))"
proof -
  let ?p = "next_pulse ps"
  let ?w1 = "advance (tick ?p) w"
  let ?w2 = "sleep_us ?p wait ?w1"
  have a: "await_due ?p (mt + int (delta_us ev)) w = ?w2"
    using wait pos by (simp add: await_due_def Let_def advance_def monotonic_us_def)
  have j: "journal ?w2 = journal w @ [Sleep wait]"
    by (simp add: sleep_us_def run_acts_journal advance_def)
  have ext: "prefix (journal (dispatch ev ?w2))
     (journal (fst (snd (midi_dispatch (drop 1 ps) (dispatch ev ?w2) (mt + int (delta_us ev)) rest))))"
    by (rule dispatch_loop_extends)
  show "prefix (journal w @ [Sleep wait])
           (journal (fst (snd (midi_dispatch ps w mt (ev # rest)))))"
  proof (cases "midi_playing ?w2")
    case False
    then show ?thesis using a j by (simp add: Let_def)
  next
    case True
    have "prefix (journal w @ [Sleep wait]) (journal (dispatch ev ?w2))"
      using j by (simp add: dispatch_journal)
    then have "prefix (journal w @ [Sleep wait])
      (journal (fst (snd (midi_dispatch (drop 1 ps) (dispatch ev ?w2) (mt + int (delta_us ev)) rest))))"
      using ext by (rule prefix_order.trans)
    then show ?thesis using a True by (simp add: Let_def)
  qed
  assume f: "midi_playing w" and q: "set (acts ?p) \<subseteq> {IncrementSong, DecrementSong, WaveEnds}"
  have "midi_playing ?w2"
    using f quiet_acts [OF q] by (simp add: sleep_us_def advance_def)
  then have "midi_dispatch ps w mt (ev # rest) =
      midi_dispatch (drop 1 ps) (dispatch ev ?w2) (mt + int (delta_us ev)) rest"
    using a by (simp add: Let_def)
  moreover have "journal (dispatch ev ?w2) = journal w @ [Sleep wait] @ map Send (command ev)"
    using j by (simp add: dispatch_journal)
  ultimately show "prefix (journal w @ [Sleep wait] @ map Send (command ev))
           (journal (fst (snd (midi_dispatch ps w mt (ev # rest)))))"
    using ext by simp
qed

section \<open>\<^verbatim>\<open>update\<close> and its loop\<close>

text \<open>The journal of an \<^verbatim>\<open>update\<close> call is the journal of its dispatch loop, which
  starts from \<^verbatim>\<open>midi_time = 0\<close> with the flag set.\<close>

lemma consumed_journal: "journal (consumed c r w) = journal w"
  by (simp add: consumed_def split: option.splits)

lemma update_audio_journal: "journal (update_audio w) = journal w"
  by (simp add: update_audio_def Let_def stop_facts)

lemma update_journal:
  assumes "song w = Some s" and "has_midi s" and "midi_track w = Some c"
  shows "journal (snd (update ps w)) =
         journal (fst (snd (midi_dispatch ps (w\<lparr>midi_playing := True\<rparr>) 0 (pending c))))"
proof -
  obtain ps' w' mt' rest' where
    r: "midi_dispatch ps (w\<lparr>midi_playing := True\<rparr>) 0 (pending c) = (ps', w', mt', rest')"
    by (metis prod_cases4)
  then have "update ps w = (ps', update_audio ((consumed c rest' w')\<lparr>midi_playing := False\<rparr>))"
    using assms by (simp add: update_def update_midi_def is_playing_def)
  then show ?thesis using r by (simp add: update_audio_journal consumed_journal)
qed

lemma update_reaches:
  assumes s: "song w = Some s" "has_midi s" "midi_track w = Some c"
    and c: "pending c = pre @ tail"
    and r: "midi_dispatch ps (w\<lparr>midi_playing := True\<rparr>) 0 pre = (ps1, w1, mt1, left)"
    and f1: "midi_playing w1"
  shows "journal (snd (update ps w)) =
         journal (fst (snd (midi_dispatch ps1 w1 (int (sum_list (map delta_us pre))) tail)))"
proof -
  have "midi_playing (w\<lparr>midi_playing := True\<rparr>)" by simp
  from loop_reaches(1) [OF this r f1, of tail] update_journal [OF s, of ps] c
  show ?thesis by simp
qed

section \<open>What the calls of other tasks leave in place\<close>







section \<open>A stopped cursor\<close>







































section \<open>The concrete installation, evaluated\<close>

lemmas update_defs = update_def update_midi_def update_audio_def consumed_def is_playing_def
  has_midi_def audio_is_playing_def exact_pulse_def stop_pulse_def

lemma reachable_boot: "reachable demo_boot"
  unfolding demo_boot_def by (rule reachable.start)

lemma demo_boot_eval:
  "demo_boot =
     \<lparr>song = None, audio_file = None, audio_wav = None, audio_playing = False,
      midi_track = None, midi_playing = False, start_time = 0,
      selected = 0, level = 1, songs = [song_a, song_m, song_b, song_bad],
      audio = demo_dev, display = \<lparr>graph = 1, indicator = CHR ''>'', line = ''a''\<rparr>,
      fs = demo_fs, next_id = 0, open_fds = {}, clock_ns = 0, journal = []\<rparr>"
  by (simp add: demo_boot_def boot_def update_display_def Let_def song_at_def is_playing_def
      demo_dev_def demo_disp_def song_a_def)

lemma demo_boot_idle: "\<not> is_playing demo_boot"
  by (simp add: demo_boot_eval is_playing_def)

lemma demo_playing_a_eval:
  "demo_playing_a =
     \<lparr>song = Some song_a, audio_file = Some \<lparr>fd = 0, data = Wav wave_a\<rparr>,
      audio_wav = Some wave_a, audio_playing = True,
      midi_track = None, midi_playing = False, start_time = 0,
      selected = 0, level = 1, songs = [song_a, song_m, song_b, song_bad],
      audio = \<lparr>dev_sample_rate = 22050, dev_channel_count = 1, dev_bits_per_sample = 16,
               dev_level = 1, reset_level = 1, streaming = Some wave_a\<rparr>,
      display = \<lparr>graph = 1, indicator = CHR ''>'', line = ''a''\<rparr>,
      fs = demo_fs, next_id = 1, open_fds = {0}, clock_ns = 0, journal = []\<rparr>"
  by (simp add: demo_playing_a_def demo_boot_eval play_defs stop_def audio_stop_def Let_def
      demo_fs_def song_a_def wave_a_def demo_dev_def)

lemma demo_playing_a_song: "song demo_playing_a = Some song_a"
  by (simp add: demo_playing_a_eval)

lemma demo_stopped_a_eval:
  "demo_stopped_a =
     \<lparr>song = None, audio_file = None,
      audio_wav = Some wave_a, audio_playing = True,
      midi_track = None, midi_playing = False, start_time = 0,
      selected = 0, level = 1, songs = [song_a, song_m, song_b, song_bad],
      audio = \<lparr>dev_sample_rate = 22050, dev_channel_count = 1, dev_bits_per_sample = 16,
               dev_level = 1, reset_level = 1, streaming = None\<rparr>,
      display = \<lparr>graph = 1, indicator = CHR ''>'', line = ''a''\<rparr>,
      fs = demo_fs, next_id = 1, open_fds = {}, clock_ns = 0, journal = []\<rparr>"
  by (simp add: demo_stopped_a_def demo_playing_a_eval stop_def audio_stop_def close_file_def Let_def)

lemma reachable_stopped_a: "reachable demo_stopped_a"
  unfolding demo_stopped_a_def demo_playing_a_def demo_boot_def by (intro reachable.intros)

lemma demo_playing_m_eval:
  "demo_playing_m =
     \<lparr>song = Some song_m, audio_file = None, audio_wav = None, audio_playing = False,
      midi_track = Some \<lparr>cid = 0, pending = demo_events\<rparr>, midi_playing = False, start_time = 0,
      selected = 0, level = 1, songs = [song_a, song_m, song_b, song_bad],
      audio = demo_dev, display = \<lparr>graph = 1, indicator = CHR ''>'', line = ''a''\<rparr>,
      fs = demo_fs, next_id = 1, open_fds = {}, clock_ns = 0, journal = []\<rparr>"
  by (simp add: demo_playing_m_def demo_boot_eval play_defs stop_def audio_stop_def Let_def
      demo_fs_def song_m_def demo_dev_def)

lemma midi_boot_eval:
  "midi_boot =
     \<lparr>song = None, audio_file = None, audio_wav = None, audio_playing = False,
      midi_track = None, midi_playing = False, start_time = 0,
      selected = 0, level = 1, songs = [song_m, song_junk, song_meta],
      audio = demo_dev, display = \<lparr>graph = 1, indicator = CHR ''>'', line = ''m''\<rparr>,
      fs = demo_fs, next_id = 0, open_fds = {}, clock_ns = 0, journal = []\<rparr>"
  by (simp add: midi_boot_def boot_def update_display_def Let_def song_at_def is_playing_def
      demo_dev_def demo_disp_def song_m_def)






lemma stage_playing_meta_eval:
  "stage_playing_meta =
     \<lparr>song = Some song_meta, audio_file = None, audio_wav = None, audio_playing = False,
      midi_track = Some \<lparr>cid = 0, pending = meta_events\<rparr>, midi_playing = False, start_time = 0,
      selected = 0, level = 1, songs = [song_m, song_junk, song_meta],
      audio = demo_dev, display = \<lparr>graph = 1, indicator = CHR ''>'', line = ''m''\<rparr>,
      fs = demo_fs, next_id = 1, open_fds = {}, clock_ns = 0, journal = []\<rparr>"
  by (simp add: stage_playing_meta_def midi_boot_eval play_defs stop_def audio_stop_def Let_def
      demo_fs_def song_meta_def demo_dev_def)

section \<open>Pacing of the MIDI events\<close>

text \<open>
  Claim C1. \<^verbatim>\<open>update\<close> on a session with a MIDI cursor sets the flag and runs the
  loop from \<^verbatim>\<open>midi_time = 0\<close>; every event is scheduled at the sum of the delta-times
  up to it, and \<^verbatim>\<open>delay = midi_time - (now - start_time)\<close>. Let the loop have got
  through the events \<open>pre\<close> without being stopped. A backlog \<open>due\<close> of events whose
  delay is not positive when they are pulled is then dispatched in file order with no
  suspension in between. For the event \<open>ev\<close> after the backlog, with delay
  \<open>wait\<close>: if \<open>wait\<close> is positive, \<^verbatim>\<open>update\<close> suspends for exactly
  \<open>wait\<close> microseconds next, and dispatches \<open>ev\<close> after that when no other
  task ends the session meanwhile; if \<open>wait\<close> is not positive, \<open>ev\<close> is
  dispatched at once. The statements are about the journal of the whole \<^verbatim>\<open>update\<close>
  call.
\<close>

theorem catch_up_then_wait:
  assumes session: "song w = Some s" "has_midi s" "midi_track w = Some c"
    and cursor: "pending c = pre @ due @ ev # rest"
    and before: "midi_dispatch ps (w\<lparr>midi_playing := True\<rparr>) 0 pre = (ps1, w1, mt1, left)"
      "midi_playing w1"
    and backlog: "all_due ps1 (clock_ns w1) (start_time w1) (int (sum_list (map delta_us pre))) due"
    and p: "p = next_pulse (drop (length due) ps1)"
    and wait: "wait = int (sum_list (map delta_us (pre @ due @ [ev])))
                 - (monotonic_us (advance (sum_list (map tick (take (length due) ps1)) + tick p) w1)
                    - start_time w1)"
  shows "prefix (journal w1 @ map Send (concat (map command due))) (journal (snd (update ps w))) \<and>
         (0 < wait \<longrightarrow>
            prefix (journal w1 @ map Send (concat (map command due)) @ [Sleep wait])
              (journal (snd (update ps w)))) \<and>
         (0 < wait \<longrightarrow> set (acts p) \<subseteq> {IncrementSong, DecrementSong, WaveEnds} \<longrightarrow>
            prefix (journal w1 @ map Send (concat (map command due)) @ [Sleep wait]
                      @ map Send (command ev))
              (journal (snd (update ps w)))) \<and>
         (wait \<le> 0 \<longrightarrow>
            prefix (journal w1 @ map Send (concat (map command due)) @ map Send (command ev))
              (journal (snd (update ps w))))"
proof -
  let ?ps = "drop (length due) ps1"
  let ?w = "w1\<lparr>clock_ns := clock_ns w1 + int (sum_list (map tick (take (length due) ps1))),
        journal := journal w1 @ map Send (concat (map command due))\<rparr>"
  let ?mt = "int (sum_list (map delta_us pre)) + int (sum_list (map delta_us due))"
  let ?J = "journal (snd (update ps w))"
  have "?J = journal (fst (snd (midi_dispatch ps1 w1 (int (sum_list (map delta_us pre)))
      (due @ ev # rest))))"
    using session cursor before by (rule update_reaches)
  also have "midi_dispatch ps1 w1 (int (sum_list (map delta_us pre))) (due @ ev # rest) =
      midi_dispatch ?ps ?w ?mt (ev # rest)"
    using before(2) backlog by (rule catch_up)
  finally have J: "?J = journal (fst (snd (midi_dispatch ?ps ?w ?mt (ev # rest))))" .
  have f: "midi_playing ?w" using before(2) by simp
  have w: "wait = ?mt + int (delta_us ev)
      - (monotonic_us (advance (tick (next_pulse ?ps)) ?w) - start_time ?w)"
    by (simp add: wait p monotonic_us_def advance_def add.assoc)
  have jw: "journal ?w = journal w1 @ map Send (concat (map command due))" by simp
  have A: "prefix (journal w1 @ map Send (concat (map command due))) ?J"
    using dispatch_loop_extends [of ?w ?ps ?mt "ev # rest"] J by simp
  have B: "prefix (journal w1 @ map Send (concat (map command due)) @ [Sleep wait]) ?J"
    if "0 < wait"
    using step_waits(1) [OF w that, of rest] J by simp
  have C: "prefix (journal w1 @ map Send (concat (map command due)) @ [Sleep wait]
                      @ map Send (command ev)) ?J"
    if "0 < wait" and "set (acts p) \<subseteq> {IncrementSong, DecrementSong, WaveEnds}"
    using step_waits(2) [OF w that(1) f, of rest] that(2) J p by simp
  have D: "prefix (journal w1 @ map Send (concat (map command due)) @ map Send (command ev)) ?J"
    if "wait \<le> 0"
    using step_due [OF f, of ?mt ev ?ps rest] that w J by simp
  from A B C D show ?thesis by blast
qed

text \<open>The scenario of the specification: \<^verbatim>\<open>update\<close> is called 5000 microseconds
  after \<^verbatim>\<open>play\<close>, the first three events are scheduled at 1000, 2000 and 4000
  microseconds and the fourth at 6000. The three go out at once and in order, the fourth
  after a wait of 1000; that is the whole journal of the call.\<close>

theorem catch_up_then_wait_witness:
  "song demo_late_m = Some song_m \<and> has_midi song_m \<and>
   midi_track demo_late_m = Some \<lparr>cid = 0, pending = demo_events\<rparr> \<and>
   all_due [] (clock_ns demo_late_m) (start_time demo_late_m) 0 (take 3 demo_events) \<and>
   prefix [Send (NoteOnMsg 60 100 0), Send (NoteOffMsg 60 0), Send (NoteOnMsg 64 100 0),
           Sleep 1000, Send (NoteOffMsg 64 0)]
     (journal (snd (update [] demo_late_m))) \<and>
   journal (snd (update [] demo_late_m)) =
     [Send (NoteOnMsg 60 100 0), Send (NoteOffMsg 60 0), Send (NoteOnMsg 64 100 0),
      Sleep 1000, Send (NoteOffMsg 64 0)]"
proof -
  let ?c = "\<lparr>cid = 0, pending = demo_events\<rparr>"
  let ?due = "take 3 demo_events"
  let ?ev = "mk_event 2000 NOTE_OFF 64"
  let ?w1 = "demo_late_m\<lparr>midi_playing := True\<rparr>"
  let ?p = "next_pulse (drop (length ?due) [])"
  have e: "demo_late_m = demo_playing_m\<lparr>clock_ns := 5000000\<rparr>"
    by (simp add: demo_late_m_def advance_def demo_playing_m_eval)
  have h1: "song demo_late_m = Some song_m" by (simp add: e demo_playing_m_eval)
  have h2: "has_midi song_m" by (simp add: has_midi_def song_m_def)
  have h3: "midi_track demo_late_m = Some ?c" by (simp add: e demo_playing_m_eval)
  have h4: "pending ?c = [] @ ?due @ ?ev # []" by (simp add: demo_events_def)
  have h5: "midi_dispatch [] ?w1 0 [] = ([], ?w1, 0, [])" by simp
  have h6: "midi_playing ?w1" by simp
  have due: "all_due [] (clock_ns demo_late_m) (start_time demo_late_m) 0 ?due"
    by (simp add: e demo_playing_m_eval next_pulse_def demo_events_def mk_event_def)
  then have h7: "all_due [] (clock_ns ?w1) (start_time ?w1) (int (sum_list (map delta_us []))) ?due"
    by simp
  have h8: "1000 = int (sum_list (map delta_us ([] @ ?due @ [?ev])))
       - (monotonic_us (advance (sum_list (map tick (take (length ?due) [])) + tick ?p) ?w1)
          - start_time ?w1)"
    by (simp add: e demo_playing_m_eval advance_def monotonic_us_def
        demo_events_def mk_event_def next_pulse_def)
  have q: "set (acts ?p) \<subseteq> {IncrementSong, DecrementSong, WaveEnds}"
    by (simp add: next_pulse_def)
  have j: "journal ?w1 @ map Send (concat (map command ?due)) @ [Sleep 1000] @ map Send (command ?ev)
     = [Send (NoteOnMsg 60 100 0), Send (NoteOffMsg 60 0), Send (NoteOnMsg 64 100 0),
           Sleep 1000, Send (NoteOffMsg 64 0)]"
    by (simp add: e demo_playing_m_eval demo_events_def loop_defs)
  note t = catch_up_then_wait [OF h1 h2 h3 h4 h5 h6 h7 refl h8]
  from t [THEN conjunct2, THEN conjunct2, THEN conjunct1] q
  have pre: "prefix [Send (NoteOnMsg 60 100 0), Send (NoteOffMsg 60 0), Send (NoteOnMsg 64 100 0),
           Sleep 1000, Send (NoteOffMsg 64 0)] (journal (snd (update [] demo_late_m)))"
    unfolding j by simp
  have ex: "journal (snd (update [] demo_late_m)) =
     [Send (NoteOnMsg 60 100 0), Send (NoteOffMsg 60 0), Send (NoteOnMsg 64 100 0),
      Sleep 1000, Send (NoteOffMsg 64 0)]"
    by (simp add: e demo_playing_m_eval update_defs loop_defs demo_events_def song_m_def
        stop_facts Let_def)
  from h1 h2 h3 due pre ex show ?thesis by (intro conjI)
qed

section \<open>Cancellation\<close>




section \<open>\<^verbatim>\<open>play\<close> with something that is not a song\<close>

text \<open>
  Claim C3, as the code has it. \<^verbatim>\<open>play\<close> calls \<^verbatim>\<open>stop()\<close> before it looks at its
  argument. With an argument that is not a \<^verbatim>\<open>Song\<close> it returns \<^verbatim>\<open>False\<close> and its
  only effect is that \<^verbatim>\<open>stop()\<close>: the state afterwards is the state after
  \<^verbatim>\<open>stop()\<close>, which is the state before the call when the player is idle.
\<close>

theorem play_non_song:
  "play w NotSong = (stop w, Inr False) \<and>
   (reachable w \<longrightarrow> \<not> is_playing w \<longrightarrow> play w NotSong = (w, Inr False))"
  by (simp add: play_def reachable_consistent stop_idle is_playing_def)

theorem play_non_song_witness:
  "reachable demo_boot \<and> \<not> is_playing demo_boot \<and> play demo_boot NotSong = (demo_boot, Inr False)"
  using play_non_song [of demo_boot] reachable_boot demo_boot_idle by blast

text \<open>The claim as written, that nothing changes, fails while a song is playing: the
  session of \<open>song_a\<close> is torn down.\<close>

theorem play_non_song_counterexample:
  "play demo_playing_a NotSong \<noteq> (demo_playing_a, Inr False)"
proof
  assume "play demo_playing_a NotSong = (demo_playing_a, Inr False)"
  then have "stop demo_playing_a = demo_playing_a" by (simp add: play_def)
  then have "song (stop demo_playing_a) = song demo_playing_a" by simp
  then show False by (simp add: stop_facts demo_playing_a_song)
qed

section \<open>An audio file that cannot be opened or decoded\<close>

text \<open>
  Claim C4, as the code has it. \<^verbatim>\<open>play\<close> has no exception handler. When the audio
  asset of the song does not open (\<^verbatim>\<open>OSError\<close>) or is not a WAV file
  (\<^verbatim>\<open>ValueError\<close>), the exception leaves \<^verbatim>\<open>play\<close>: nothing is returned. At that
  point the song is the current session, its MIDI cursor is open if it has a MIDI asset
  that parses, the audio driver is not streaming, and neither \<^verbatim>\<open>audio_playing\<close> nor
  \<^verbatim>\<open>start_time\<close> has been assigned.
\<close>

theorem audio_failure_propagates:
  assumes a: "audio_path s = Some p"
    and bad: "\<forall>wv. fs w p \<noteq> Some (Wav wv)"
    and m: "midi_path s = None \<or> (\<exists>q evs. midi_path s = Some q \<and> fs w q = Some (Mid evs))"
  shows "snd (play w (SongRef s)) = Inl (if fs w p = None then OSError else ValueError) \<and>
         song (fst (play w (SongRef s))) = Some s \<and>
         audio_playing (fst (play w (SongRef s))) = audio_playing w \<and>
         \<not> audio_is_playing (audio (fst (play w (SongRef s)))) \<and>
         start_time (fst (play w (SongRef s))) = start_time w \<and>
         (\<forall>q evs. midi_path s = Some q \<longrightarrow> fs w q = Some (Mid evs) \<longrightarrow>
            midi_track (fst (play w (SongRef s))) = Some \<lparr>cid = next_id w, pending = evs\<rparr>)"
proof (cases "fs w p")
  case None
  with a m show ?thesis
    by (auto simp add: play_defs Let_def stop_facts audio_is_playing_def)
next
  case (Some x)
  with bad have "\<forall>wv. x \<noteq> Wav wv" by simp
  with Some a m show ?thesis
    by (cases x) (auto simp add: play_defs Let_def stop_facts audio_is_playing_def)
qed

theorem audio_failure_propagates_witness:
  "audio_path song_bad = Some ''/sd/bad.wav'' \<and>
   (\<forall>wv. fs demo_boot ''/sd/bad.wav'' \<noteq> Some (Wav wv)) \<and>
   fs demo_boot ''/sd/m.mid'' = Some (Mid demo_events) \<and>
   snd (play demo_boot (SongRef song_bad)) = Inl ValueError \<and>
   song (fst (play demo_boot (SongRef song_bad))) = Some song_bad \<and>
   \<not> audio_playing (fst (play demo_boot (SongRef song_bad))) \<and>
   midi_track (fst (play demo_boot (SongRef song_bad))) = Some \<lparr>cid = 0, pending = demo_events\<rparr>"
proof -
  have h1: "audio_path song_bad = Some ''/sd/bad.wav''" by (simp add: song_bad_def)
  have h2: "\<forall>wv. fs demo_boot ''/sd/bad.wav'' \<noteq> Some (Wav wv)"
    by (simp add: demo_boot_eval demo_fs_def)
  have f: "fs demo_boot ''/sd/m.mid'' = Some (Mid demo_events)"
    by (simp add: demo_boot_eval demo_fs_def)
  have mp: "midi_path song_bad = Some ''/sd/m.mid''" by (simp add: song_bad_def)
  have h3: "midi_path song_bad = None \<or>
      (\<exists>q evs. midi_path song_bad = Some q \<and> fs demo_boot q = Some (Mid evs))"
    using f mp by simp
  have junk: "fs demo_boot ''/sd/bad.wav'' \<noteq> None" by (simp add: demo_boot_eval demo_fs_def)
  have z: "next_id demo_boot = 0" "\<not> audio_playing demo_boot" by (simp_all add: demo_boot_eval)
  from audio_failure_propagates [OF h1 h2 h3] junk f mp z h1 h2 show ?thesis by simp
qed

text \<open>The claim as written, that \<^verbatim>\<open>play\<close> still returns \<^verbatim>\<open>True\<close>, fails for a song
  with a MIDI file and a file that is a WAV file by name only.\<close>

theorem audio_failure_counterexample:
  "has_audio song_bad \<and> has_midi song_bad \<and> snd (play demo_boot (SongRef song_bad)) \<noteq> Inr True"
  by (simp add: has_audio_def has_midi_def song_bad_def demo_boot_eval play_defs stop_def
      audio_stop_def Let_def demo_fs_def)

section \<open>One session at a time\<close>

text \<open>
  Claim C5. The player holds one session. \<^verbatim>\<open>play\<close> of a song first tears down what
  was there: after its \<^verbatim>\<open>stop()\<close> no song is current, the audio driver is not
  streaming, the field \<^verbatim>\<open>audio_file\<close> is cleared and no file is open; the rest of
  \<^verbatim>\<open>play\<close> starts from that state. Afterwards the file of the previous session is
  closed, every open file is the one the new session holds, and if the audio driver is
  streaming then it streams the waveform of the new song.
\<close>

theorem play_replaces_session:
  assumes r: "reachable w"
  shows "\<not> is_playing (stop w) \<and> \<not> audio_is_playing (audio (stop w)) \<and>
         audio_file (stop w) = None \<and> open_fds (stop w) = {} \<and>
         play w (SongRef b) = play (stop w) (SongRef b) \<and>
         (\<forall>f. audio_file w = Some f \<longrightarrow> fd f \<notin> open_fds (fst (play w (SongRef b)))) \<and>
         (\<forall>n \<in> open_fds (fst (play w (SongRef b))).
            \<exists>f. audio_file (fst (play w (SongRef b))) = Some f \<and> fd f = n) \<and>
         (\<forall>wv. streaming (audio (fst (play w (SongRef b)))) = Some wv \<longrightarrow>
            (\<exists>p. audio_path b = Some p \<and> fs w p = Some (Wav wv)))"
proof -
  have c: "consistent w" using r by (rule reachable_consistent)
  then have c': "consistent (fst (play w (SongRef b)))" by (rule consistent_play)
  have old: "fd f \<notin> open_fds (fst (play w (SongRef b)))" if "audio_file w = Some f" for f
  proof
    assume "fd f \<in> open_fds (fst (play w (SongRef b)))"
    with c have "next_id w \<le> fd f" by (rule play_fresh_handles)
    moreover from c that have "fd f < next_id w" by (simp add: consistent_def)
    ultimately show False by simp
  qed
  have held: "\<exists>f. audio_file (fst (play w (SongRef b))) = Some f \<and> fd f = n"
    if "n \<in> open_fds (fst (play w (SongRef b)))" for n
    using c' that by (auto simp add: consistent_def split: option.splits)
  show ?thesis
    using old held play_stream_source [of w b] play_after_stop [of w "SongRef b"]
    by (simp add: stop_facts stop_open_fds [OF c] is_playing_def audio_is_playing_def)
qed

theorem play_replaces_session_witness:
  "reachable demo_playing_a \<and> is_playing demo_playing_a \<and>
   audio_file demo_playing_a = Some \<lparr>fd = 0, data = Wav wave_a\<rparr> \<and>
   open_fds (stop demo_playing_a) = {} \<and>
   0 \<notin> open_fds (fst (play demo_playing_a (SongRef song_b))) \<and>
   play demo_playing_a (SongRef song_b) = play (stop demo_playing_a) (SongRef song_b)"
proof -
  have r: "reachable demo_playing_a"
    unfolding demo_playing_a_def by (intro reachable.intros reachable_boot)
  have f: "audio_file demo_playing_a = Some \<lparr>fd = 0, data = Wav wave_a\<rparr>"
    by (simp add: demo_playing_a_eval)
  have i: "is_playing demo_playing_a" by (simp add: is_playing_def demo_playing_a_eval)
  have z: "fd \<lparr>fd = 0, data = Wav wave_a\<rparr> = 0" by simp
  from play_replaces_session [OF r, of song_b] r f i z show ?thesis by metis
qed

section \<open>A song with a MIDI file only\<close>

text \<open>
  Claim C6. \<^verbatim>\<open>stop()\<close> clears \<^verbatim>\<open>midi_playing\<close> but not \<^verbatim>\<open>audio_playing\<close>, and
  \<^verbatim>\<open>play\<close> assigns \<^verbatim>\<open>audio_playing\<close> only for a song with an audio asset. After
  \<open>song_a\<close> has been started and stopped by the user, playing the MIDI-only
  \<open>song_m\<close> begins a session in which \<^verbatim>\<open>audio_playing\<close> is true.
\<close>

theorem stale_audio_flag:
  "reachable demo_stopped_a \<and> \<not> is_playing demo_stopped_a \<and> \<not> has_audio song_m \<and>
   snd (play demo_stopped_a (SongRef song_m)) = Inr True \<and>
   audio_playing (fst (play demo_stopped_a (SongRef song_m)))"
  using reachable_stopped_a
  by (simp add: demo_stopped_a_eval is_playing_def has_audio_def song_m_def play_defs stop_def
      audio_stop_def Let_def demo_fs_def)

section \<open>A song with an audio file only\<close>

text \<open>
  Claim C7, as the code has it. For a song with an audio asset and no MIDI asset,
  \<^verbatim>\<open>play\<close> returns \<^verbatim>\<open>True\<close>, configures the audio driver with the sample rate,
  channel count and bits per sample of the WAV file and starts it. As long as the driver
  is streaming, \<^verbatim>\<open>update\<close> changes nothing. The first \<^verbatim>\<open>update\<close> that finds the
  driver no longer streaming clears \<^verbatim>\<open>audio_playing\<close> and calls \<^verbatim>\<open>stop()\<close> in the
  same call: the player is idle when that call returns.
\<close>

theorem audio_only_session:
  assumes a: "audio_path s = Some p" and m: "midi_path s = None" and f: "fs w p = Some (Wav wv)"
  shows "snd (play w (SongRef s)) = Inr True \<and>
         dev_sample_rate (audio (fst (play w (SongRef s)))) = sample_rate wv \<and>
         dev_channel_count (audio (fst (play w (SongRef s)))) = channel_count wv \<and>
         dev_bits_per_sample (audio (fst (play w (SongRef s)))) = bits_per_sample wv \<and>
         streaming (audio (fst (play w (SongRef s)))) = Some wv \<and>
         is_playing (fst (play w (SongRef s))) \<and>
         update ps (advance n (fst (play w (SongRef s)))) = (ps, advance n (fst (play w (SongRef s)))) \<and>
         \<not> is_playing (snd (update ps (run_act (advance n (fst (play w (SongRef s)))) WaveEnds)))"
proof -
  let ?w1 = "fst (play w (SongRef s))"
  note p = play_audio_only [OF a m f]
  have nm: "\<not> has_midi s" using m by (simp add: has_midi_def)
  have fl: "\<not> midi_playing ?w1" by (rule play_flag)
  let ?w2 = "advance n ?w1"
  have w2: "song ?w2 = Some s" "\<not> midi_playing ?w2" "audio_playing ?w2"
    "audio_is_playing (audio ?w2)"
    using p fl by (simp_all add: advance_def audio_is_playing_def)
  let ?w3 = "run_act ?w2 WaveEnds"
  have w3: "song ?w3 = Some s" "\<not> midi_playing ?w3" "audio_playing ?w3"
    "\<not> audio_is_playing (audio ?w3)"
    using w2 by (simp_all add: audio_is_playing_def)
  have "update ps ?w2 = (ps, ?w2)"
    using update_without_midi [OF w2(1) nm w2(2) w2(3), of ps] w2(4) by simp
  moreover have "\<not> is_playing (snd (update ps ?w3))"
    using update_without_midi [OF w3(1) nm w3(2) w3(3), of ps] w3(4)
    by (simp add: is_playing_def stop_facts)
  ultimately show ?thesis using p by (simp add: is_playing_def)
qed

theorem audio_only_session_witness:
  "audio_path song_a = Some ''/sd/a.wav'' \<and> midi_path song_a = None \<and>
   fs demo_boot ''/sd/a.wav'' = Some (Wav wave_a) \<and>
   snd (play demo_boot (SongRef song_a)) = Inr True \<and>
   dev_sample_rate (audio (fst (play demo_boot (SongRef song_a)))) = 22050 \<and>
   dev_channel_count (audio (fst (play demo_boot (SongRef song_a)))) = 1 \<and>
   dev_bits_per_sample (audio (fst (play demo_boot (SongRef song_a)))) = 16 \<and>
   \<not> is_playing (snd (update []
      (run_act (advance 1000000 (fst (play demo_boot (SongRef song_a)))) WaveEnds)))"
proof -
  have h1: "audio_path song_a = Some ''/sd/a.wav''" and h2: "midi_path song_a = None"
    by (simp_all add: song_a_def)
  have h3: "fs demo_boot ''/sd/a.wav'' = Some (Wav wave_a)"
    by (simp add: demo_boot_eval demo_fs_def)
  have wv: "sample_rate wave_a = 22050" "channel_count wave_a = 1" "bits_per_sample wave_a = 16"
    by (simp_all add: wave_a_def)
  from audio_only_session [OF h1 h2 h3, of "[]" 1000000] h1 h2 h3 wv show ?thesis by simp
qed

text \<open>The claim as written has the player still in the session after the
  \<^verbatim>\<open>update\<close> that sees the driver idle, and idle only after the next one. It is idle
  after the first.\<close>

theorem audio_only_counterexample:
  "is_playing demo_finished_a \<and> \<not> audio_is_playing (audio demo_finished_a) \<and>
   \<not> is_playing (snd (update [] demo_finished_a))"
proof -
  have s: "song demo_finished_a = Some song_a" "\<not> midi_playing demo_finished_a"
    "audio_playing demo_finished_a" "\<not> audio_is_playing (audio demo_finished_a)"
    by (simp_all add: demo_finished_a_def demo_playing_a_eval audio_is_playing_def)
  have nm: "\<not> has_midi song_a" by (simp add: has_midi_def song_a_def)
  from update_without_midi [OF s(1) nm s(2) s(3), of "[]"] s show ?thesis
    by (simp add: is_playing_def stop_facts)
qed

section \<open>Stopping an idle player\<close>

text \<open>
  Claim C8. A second \<^verbatim>\<open>stop()\<close> changes nothing after a first, and in every
  reachable state in which no song is current \<^verbatim>\<open>stop()\<close> returns the state
  unchanged: the fields of the player, the audio driver, the open files, the display,
  the clock and the journal are what they were.
\<close>

theorem stop_while_idle_is_noop:
  "stop (stop w) = stop w \<and> (reachable w \<longrightarrow> \<not> is_playing w \<longrightarrow> stop w = w)"
  by (simp add: stop_stop reachable_consistent stop_idle is_playing_def)

theorem stop_while_idle_is_noop_witness:
  "reachable demo_stopped_a \<and> \<not> is_playing demo_stopped_a \<and> stop demo_stopped_a = demo_stopped_a"
proof -
  have i: "\<not> is_playing demo_stopped_a"
    by (simp add: demo_stopped_a_def is_playing_def stop_facts)
  from stop_while_idle_is_noop [of demo_stopped_a] reachable_stopped_a i
  show ?thesis by blast
qed

section \<open>The selected song\<close>

text \<open>
  Claim C9, as the code has it. While a song is playing, \<^verbatim>\<open>increment_song\<close>,
  \<^verbatim>\<open>decrement_song\<close> and \<^verbatim>\<open>toggle_song()\<close> without an index leave \<^verbatim>\<open>selected\<close>
  as it is. \<^verbatim>\<open>toggle_song(index)\<close> assigns \<^verbatim>\<open>index % len(songs)\<close> to
  \<^verbatim>\<open>selected\<close> before it looks at the player, and then stops the session.
\<close>

theorem selection_while_playing:
  assumes "is_playing w"
  shows "selected (fst (increment_song w)) = selected w \<and>
         selected (fst (decrement_song w)) = selected w \<and>
         selected (fst (toggle_song w None)) = selected w \<and>
         (songs w \<noteq> [] \<longrightarrow>
            selected (fst (toggle_song w (Some i))) = i mod int (length (songs w)) \<and>
            \<not> is_playing (fst (toggle_song w (Some i))))"
  using assms
  by (simp add: increment_song_def decrement_song_def toggle_song_def py_mod_def
      update_display_keeps stop_facts is_playing_def)

theorem selection_while_playing_witness:
  "is_playing demo_playing_a \<and> songs demo_playing_a \<noteq> [] \<and>
   selected (fst (increment_song demo_playing_a)) = 0 \<and>
   selected (fst (decrement_song demo_playing_a)) = 0 \<and>
   selected (fst (toggle_song demo_playing_a None)) = 0 \<and>
   selected (fst (toggle_song demo_playing_a (Some 6))) = 2 \<and>
   \<not> is_playing (fst (toggle_song demo_playing_a (Some 6)))"
proof -
  have h: "is_playing demo_playing_a" by (simp add: is_playing_def demo_playing_a_eval)
  have n: "songs demo_playing_a \<noteq> []" "selected demo_playing_a = 0"
    "length (songs demo_playing_a) = 4"
    by (simp_all add: demo_playing_a_eval)
  from selection_while_playing [OF h, of 6] h n show ?thesis by simp
qed

text \<open>The claim as written fails for the direct selection: with \<open>song_a\<close> playing
  and selected, \<^verbatim>\<open>toggle_song(1)\<close> selects the second song.\<close>

theorem selection_counterexample:
  "is_playing demo_playing_a \<and>
   selected (fst (toggle_song demo_playing_a (Some 1))) \<noteq> selected demo_playing_a"
  by (simp add: toggle_song_def py_mod_def update_display_keeps stop_facts is_playing_def
      demo_playing_a_eval)

section \<open>Dropped events and the accumulator\<close>

text \<open>
  Claim C10. The delta-time of an event is added to \<^verbatim>\<open>midi_time\<close> before anything
  else is done with the event. When the loop of \<^verbatim>\<open>update\<close> has got through the
  events \<open>pre\<close>, the accumulator is the sum of all their delta-times, whatever their
  status, and the delay of the next event \<open>ev\<close> is that sum plus the delta-time of
  \<open>ev\<close>, minus the time elapsed since \<^verbatim>\<open>start_time\<close>: when it is positive the
  next entry of the journal of \<^verbatim>\<open>update\<close> is a suspension of exactly that length,
  otherwise \<open>ev\<close> is dispatched at once. So every event before \<open>ev\<close>, dropped or
  not, moves the moment \<open>ev\<close> is dispatched by its delta-time.
\<close>

theorem midi_time_counts_every_event:
  assumes session: "song w = Some s" "has_midi s" "midi_track w = Some c"
    and cursor: "pending c = pre @ ev # rest"
    and before: "midi_dispatch ps (w\<lparr>midi_playing := True\<rparr>) 0 pre = (ps1, w1, mt1, left)"
      "midi_playing w1"
    and wait: "wait = int (sum_list (map delta_us pre)) + int (delta_us ev)
                 - (monotonic_us (advance (tick (next_pulse ps1)) w1) - start_time w1)"
  shows "mt1 = int (sum_list (map delta_us pre)) \<and>
         (0 < wait \<longrightarrow> prefix (journal w1 @ [Sleep wait]) (journal (snd (update ps w)))) \<and>
         (wait \<le> 0 \<longrightarrow>
            prefix (journal w1 @ map Send (command ev)) (journal (snd (update ps w))))"
proof -
  let ?mt = "int (sum_list (map delta_us pre))"
  have J: "journal (snd (update ps w)) =
      journal (fst (snd (midi_dispatch ps1 w1 ?mt (ev # rest))))"
    using session cursor before by (rule update_reaches)
  have "midi_playing (w\<lparr>midi_playing := True\<rparr>)" by simp
  from loop_reaches(2) [OF this before] have m: "mt1 = ?mt" by simp
  have B: "prefix (journal w1 @ [Sleep wait]) (journal (snd (update ps w)))" if "0 < wait"
    using step_waits(1) [OF wait that, of rest] J by simp
  have D: "prefix (journal w1 @ map Send (command ev)) (journal (snd (update ps w)))"
    if "wait \<le> 0"
    using step_due [OF before(2), of ?mt ev ps1 rest] that wait J by simp
  from m B D show ?thesis by blast
qed

text \<open>A meta event with a delta-time of 1000 microseconds followed by a note 500
  microseconds later, with suspensions that last as long as requested: nothing is sent
  for the meta event, and the note waits 500 microseconds after it, not 500 microseconds
  from the start.\<close>

theorem midi_time_counts_every_event_witness:
  "song stage_playing_meta = Some song_meta \<and> has_midi song_meta \<and>
   midi_track stage_playing_meta = Some \<lparr>cid = 0, pending = meta_events\<rparr> \<and>
   meta_events = [mk_event 1000 255 0] @ mk_event 500 NOTE_ON 60 # [] \<and>
   command (mk_event 1000 255 0) = [] \<and>
   prefix [Sleep 1000, Sleep 500]
     (journal (snd (update [exact_pulse 1000, exact_pulse 500] stage_playing_meta))) \<and>
   journal (snd (update [exact_pulse 1000, exact_pulse 500] stage_playing_meta)) =
     [Sleep 1000, Sleep 500, Send (NoteOnMsg 60 100 0)]"
proof -
  let ?c = "\<lparr>cid = 0, pending = meta_events\<rparr>"
  let ?ps = "[exact_pulse 1000, exact_pulse 500]"
  let ?pre = "[mk_event 1000 255 0]"
  let ?ev = "mk_event 500 NOTE_ON 60"
  let ?w1 = "stage_playing_meta\<lparr>midi_playing := True, clock_ns := 1000000,
      journal := [Sleep 1000]\<rparr>"
  have h1: "song stage_playing_meta = Some song_meta" by (simp add: stage_playing_meta_eval)
  have h2: "has_midi song_meta" by (simp add: has_midi_def song_meta_def)
  have h3: "midi_track stage_playing_meta = Some ?c" by (simp add: stage_playing_meta_eval)
  have m: "meta_events = ?pre @ ?ev # []" by (simp add: meta_events_def)
  then have h4: "pending ?c = ?pre @ ?ev # []" by simp
  have h5: "midi_dispatch ?ps (stage_playing_meta\<lparr>midi_playing := True\<rparr>) 0 ?pre
      = ([exact_pulse 500], ?w1, 1000, [])"
    by (simp add: stage_playing_meta_eval loop_defs exact_pulse_def Let_def)
  have h6: "midi_playing ?w1" by simp
  have h7: "500 = int (sum_list (map delta_us ?pre)) + int (delta_us ?ev)
       - (monotonic_us (advance (tick (next_pulse [exact_pulse 500])) ?w1) - start_time ?w1)"
    by (simp add: stage_playing_meta_eval loop_defs exact_pulse_def)
  have dropped: "command (mk_event 1000 255 0) = []" by (simp add: loop_defs)
  note t = midi_time_counts_every_event [OF h1 h2 h3 h4 h5 h6 h7]
  from t [THEN conjunct2, THEN conjunct1]
  have pre: "prefix [Sleep 1000, Sleep 500] (journal (snd (update ?ps stage_playing_meta)))"
    by simp
  have ex: "journal (snd (update ?ps stage_playing_meta)) =
     [Sleep 1000, Sleep 500, Send (NoteOnMsg 60 100 0)]"
    by (simp add: stage_playing_meta_eval update_defs loop_defs meta_events_def song_meta_def
        stop_facts Let_def)
  from h1 h2 h3 m dropped pre ex show ?thesis by (intro conjI)
qed

end
